theory Spec2Isabelle
  imports Complex_Main "HOL-Library.Multiset"
begin

section \<open>Data model\<close>

text \<open>
  The pipeline of \<^verbatim>\<open>WickelfeaturesProject/lib.py\<close> turns phonetic transcriptions into
  matrices of binary features, pads them, and decodes the vectors predicted by a recurrent
  network back into phones.

  A Python \<^verbatim>\<open>str\<close> is a list of symbols, one per code point, so \<open>length\<close> is Python's
  \<^verbatim>\<open>len\<close>; a phone is a \<^verbatim>\<open>str\<close> key of the pickled tables. NumPy arrays of numbers are
  lists of reals (a vector), lists of vectors (a matrix, one row per phone) and lists of
  matrices (a batch); the means taken in \<^verbatim>\<open>preprocessing\<close> are exact, and
  the library functions that do arithmetic on predicted vectors are parameters. The pickled tables
  \<^verbatim>\<open>phones\<close>, \<^verbatim>\<open>phone_arrays\<close> and \<^verbatim>\<open>lookup\<close> are not part of the sources and are
  parameters of every function that reads them.
\<close>

type_synonym vec = "real list"
type_synonym matrix = "vec list"

datatype py_error = KeyError | ValueError | IndexError | OSError

type_synonym phones_table = "string \<rightharpoonup> string list"

section \<open>Feature coding\<close>

definition features :: "string list" where
  "features =
    [''oclusiva'', ''nasal'', ''tepe'', ''fricativa'', ''l-aprox'', ''bilabial'', ''labiodental'',
     ''alveolar'', ''p-alveolar'', ''palatal'', ''velar'', ''glotal'', ''vozeada'', ''fechada'',
     ''m-fechada'', ''m-aberta'', ''aberta'', ''anterior'', ''posterior'', ''beg'', ''end'']"

text \<open>
  The loop of \<^verbatim>\<open>code\<close>: \<^verbatim>\<open>phones[phone]\<close> is read at every feature, and raises
  \<^verbatim>\<open>KeyError\<close> for a phone that is not in the table.
\<close>

fun code_loop :: "phones_table \<Rightarrow> string \<Rightarrow> string list \<Rightarrow> vec \<Rightarrow> py_error + vec" where
  "code_loop phones phone [] array = Inr array"
| "code_loop phones phone (item # fts) array =
     (case phones phone of
        None \<Rightarrow> Inl KeyError
      | Some fs \<Rightarrow>
          if item \<in> set fs then code_loop phones phone fts (array @ [1])
          else code_loop phones phone fts (array @ [0]))"

definition code :: "phones_table \<Rightarrow> string \<Rightarrow> py_error + vec" where
  "code phones phone = code_loop phones phone features []"

text \<open>\<^verbatim>\<open>code_verb\<close> iterates over the characters of the verb; each is a one-symbol string.\<close>

fun code_verb_loop :: "phones_table \<Rightarrow> string \<Rightarrow> matrix \<Rightarrow> py_error + matrix" where
  "code_verb_loop phones [] coded = Inr coded"
| "code_verb_loop phones (item # verb) coded =
     (case code phones [item] of
        Inl e \<Rightarrow> Inl e
      | Inr a \<Rightarrow> code_verb_loop phones verb (coded @ [a]))"

definition code_verb :: "phones_table \<Rightarrow> string \<Rightarrow> py_error + matrix" where
  "code_verb phones verb = code_verb_loop phones verb []"

section \<open>Nearest phone\<close>

text \<open>
  NumPy and scipy compute in 64-bit floating point. A float array is a vector of reals (every
  float is a real number) or, when one of its entries is \<^verbatim>\<open>inf\<close> or \<^verbatim>\<open>nan\<close>, the value
  \<open>NonFinite\<close>. The two library functions that do arithmetic on predicted vectors,
  \<^verbatim>\<open>scipy.spatial.distance.euclidean\<close> and NumPy's division, are parameters of the functions
  that call them, so that every statement below holds for the values they really return,
  rounded as they are.
\<close>

datatype np_vector = Finite vec | NonFinite

type_synonym euclidean_fn = "np_vector \<Rightarrow> vec \<Rightarrow> py_error + real"
type_synonym divide_fn = "vec \<Rightarrow> vec \<Rightarrow> py_error + np_vector"

text \<open>
  The table \<^verbatim>\<open>phone_arrays\<close> is a dict from phone to feature vector. Its iteration order
  matters, so it is an association list in that order; \<^verbatim>\<open>for phone in phone_arrays\<close> runs
  over its keys and \<^verbatim>\<open>phone_arrays[phone]\<close> looks the key up.
\<close>

type_synonym phone_arrays_table = "(string \<times> vec) list"

fun closest_loop ::
  "euclidean_fn \<Rightarrow> phone_arrays_table \<Rightarrow> np_vector \<Rightarrow> string list \<Rightarrow> real \<Rightarrow> string \<Rightarrow>
   py_error + string" where
  "closest_loop euclidean phone_arrays predicted [] min_dst candidate = Inr candidate"
| "closest_loop euclidean phone_arrays predicted (phone # rest) min_dst candidate =
     (case map_of phone_arrays phone of
        None \<Rightarrow> Inl KeyError
      | Some arr \<Rightarrow>
          (case euclidean predicted arr of
             Inl e \<Rightarrow> Inl e
           | Inr dst \<Rightarrow>
               if dst < min_dst then closest_loop euclidean phone_arrays predicted rest dst phone
               else closest_loop euclidean phone_arrays predicted rest min_dst candidate))"

definition find_closest_array ::
  "euclidean_fn \<Rightarrow> phone_arrays_table \<Rightarrow> np_vector \<Rightarrow> py_error + string" where
  "find_closest_array euclidean phone_arrays predicted =
     closest_loop euclidean phone_arrays predicted (map fst phone_arrays) 10000 ''''"


text \<open>
  The two library functions in exact arithmetic, for the example runs below, whose numbers
  are computed without rounding. \<^verbatim>\<open>euclidean(u, v)\<close> is the 2-norm of \<^verbatim>\<open>u - v\<close>; NumPy
  subtracts and divides arrays of equal length elementwise, broadcasts an array of length
  one, and raises \<^verbatim>\<open>ValueError\<close> for any other pair of lengths. The norm refuses an array
  with \<^verbatim>\<open>inf\<close> or \<^verbatim>\<open>nan\<close> by a \<^verbatim>\<open>ValueError\<close>; dividing by 0 gives such an array.
\<close>

definition np_subtract :: "vec \<Rightarrow> vec \<Rightarrow> py_error + vec" where
  "np_subtract u v =
     (if length u = length v then Inr (map2 (-) u v)
      else if length u = 1 then Inr (map (\<lambda>y. hd u - y) v)
      else if length v = 1 then Inr (map (\<lambda>x. x - hd v) u)
      else Inl ValueError)"

fun euclidean_exact :: euclidean_fn where
  "euclidean_exact NonFinite v = Inl ValueError"
| "euclidean_exact (Finite u) v =
     (case np_subtract u v of
        Inl e \<Rightarrow> Inl e
      | Inr u_v \<Rightarrow> Inr (sqrt (\<Sum>d\<leftarrow>u_v. d\<^sup>2)))"

definition np_divide_exact :: divide_fn where
  "np_divide_exact u v =
     (if length u = length v then
        (if 0 \<in> set v then Inr NonFinite else Inr (Finite (map2 (/) u v)))
      else if length u = 1 then
        (if 0 \<in> set v then Inr NonFinite else Inr (Finite (map (\<lambda>y. hd u / y) v)))
      else if length v = 1 then
        (if hd v = 0 \<and> u \<noteq> [] then Inr NonFinite else Inr (Finite (map (\<lambda>x. x / hd v) u)))
      else Inl ValueError)"

section \<open>Greedy decoding\<close>

text \<open>
  The encoder and the decoder are trained Keras models; their \<^verbatim>\<open>predict\<close> methods are
  parameters. A tensor of shape (batch, time, features) is a list of matrices. The decoder
  takes the target sequence and the two recurrent states and returns the output tensor
  together with the new states; the pair of states is one value of an arbitrary type.
\<close>

type_synonym tensor = "matrix list"
type_synonym lookup_table = "string \<rightharpoonup> vec"

text \<open>\<^verbatim>\<open>output_phones[0, -1, :]\<close>: the last time step of the first sequence of the batch.\<close>

definition last_step :: "tensor \<Rightarrow> py_error + vec" where
  "last_step output_phones =
     (case output_phones of
        [] \<Rightarrow> Inl IndexError
      | m # _ \<Rightarrow> if m = [] then Inl IndexError else Inr (last m))"

text \<open>
  Sampling a phone: the nearest phone of the last output vector, divided by \<^verbatim>\<open>omega\<close>
  first when \<^verbatim>\<open>renormalize\<close> is set.
\<close>

definition sample_phone ::
  "euclidean_fn \<Rightarrow> divide_fn \<Rightarrow> phone_arrays_table \<Rightarrow> vec \<Rightarrow> bool \<Rightarrow> tensor \<Rightarrow>
   py_error + string" where
  "sample_phone euclidean np_divide phone_arrays omega renormalize output_phones =
     (case last_step output_phones of
        Inl e \<Rightarrow> Inl e
      | Inr out \<Rightarrow>
          if renormalize then
            (case np_divide out omega of
               Inl e \<Rightarrow> Inl e
             | Inr scaled \<Rightarrow> find_closest_array euclidean phone_arrays scaled)
          else find_closest_array euclidean phone_arrays (Finite out))"

text \<open>
  The sampling loop of \<^verbatim>\<open>decode_sequence\<close>. Nothing in the loop bounds the number of
  iterations by itself, so the loop is a partial function: \<open>None\<close> is a run that never
  returns. The result is the list \<^verbatim>\<open>fts\<close> and the string \<^verbatim>\<open>decoded_verb\<close> as they are when
  the loop exits.
\<close>

partial_function (option) decode_loop ::
  "euclidean_fn \<Rightarrow> divide_fn \<Rightarrow> phone_arrays_table \<Rightarrow> lookup_table \<Rightarrow>
   (tensor \<Rightarrow> 's \<Rightarrow> tensor \<times> 's) \<Rightarrow> vec \<Rightarrow> bool \<Rightarrow>
   tensor \<Rightarrow> 's \<Rightarrow> string \<Rightarrow> tensor list \<Rightarrow> (py_error + tensor list \<times> string) option" where
  "decode_loop euclidean np_divide phone_arrays lookup decoder omega renormalize
     target_seq states_value decoded_verb fts =
     (case decoder target_seq states_value of
        (output_phones, hc) \<Rightarrow>
          (case sample_phone euclidean np_divide phone_arrays omega renormalize output_phones of
             Inl e \<Rightarrow> Some (Inl e)
           | Inr sampled_phone \<Rightarrow>
               (case lookup sampled_phone of
                  None \<Rightarrow> Some (Inl KeyError)
                | Some sampled_phone_vector \<Rightarrow>
                    if sampled_phone = ''#'' \<or> length (decoded_verb @ sampled_phone) > 13
                    then Some (Inr (fts @ [output_phones], decoded_verb @ sampled_phone))
                    else decode_loop euclidean np_divide phone_arrays lookup decoder omega renormalize
                           [[sampled_phone_vector]] hc
                           (decoded_verb @ sampled_phone) (fts @ [output_phones]))))"

definition decode_sequence ::
  "euclidean_fn \<Rightarrow> divide_fn \<Rightarrow> phone_arrays_table \<Rightarrow> lookup_table \<Rightarrow> tensor \<Rightarrow>
   (tensor \<Rightarrow> 's) \<Rightarrow> (tensor \<Rightarrow> 's \<Rightarrow> tensor \<times> 's) \<Rightarrow> vec \<Rightarrow> bool \<Rightarrow>
   (py_error + tensor list \<times> string) option" where
  "decode_sequence euclidean np_divide phone_arrays lookup input_seq encoder decoder omega
     renormalize =
     (let states_value = encoder input_seq in
      case lookup ''#'' of
        None \<Rightarrow> Some (Inl KeyError)
      | Some start \<Rightarrow>
          (case decode_loop euclidean np_divide phone_arrays lookup decoder omega renormalize
                  [[start]] states_value '''' [] of
             None \<Rightarrow> None
           | Some (Inl e) \<Rightarrow> Some (Inl e)
           | Some (Inr (fts, decoded_verb)) \<Rightarrow> Some (Inr (fts, butlast decoded_verb))))"

text \<open>
  \<^verbatim>\<open>decode_sequences\<close> takes an array with three dimensions (a batch) or one sequence.
  For a batch it returns \<^verbatim>\<open>zip(*results)\<close>: nothing for an empty batch, otherwise the
  tuple of all \<^verbatim>\<open>fts\<close> followed by the tuple of all decoded verbs.
\<close>

datatype seq_array = Seq3 "matrix list" | Seq2 matrix

datatype decoded = ZipEmpty | ZipColumns "tensor list list" "string list"
  | Single "tensor list" string

fun zip_star :: "(tensor list \<times> string) list \<Rightarrow> decoded" where
  "zip_star [] = ZipEmpty"
| "zip_star rs = ZipColumns (map fst rs) (map snd rs)"

fun decode_each ::
  "euclidean_fn \<Rightarrow> divide_fn \<Rightarrow> phone_arrays_table \<Rightarrow> lookup_table \<Rightarrow> (tensor \<Rightarrow> 's) \<Rightarrow>
   (tensor \<Rightarrow> 's \<Rightarrow> tensor \<times> 's) \<Rightarrow> vec \<Rightarrow> bool \<Rightarrow> matrix list \<Rightarrow>
   (py_error + (tensor list \<times> string) list) option" where
  "decode_each euclidean np_divide phone_arrays lookup encoder decoder omega renormalize [] =
     Some (Inr [])"
| "decode_each euclidean np_divide phone_arrays lookup encoder decoder omega renormalize (s # seq) =
     (case decode_sequence euclidean np_divide phone_arrays lookup [s] encoder decoder omega
             renormalize of
        None \<Rightarrow> None
      | Some (Inl e) \<Rightarrow> Some (Inl e)
      | Some (Inr r) \<Rightarrow>
          (case decode_each euclidean np_divide phone_arrays lookup encoder decoder omega
                  renormalize seq of
             None \<Rightarrow> None
           | Some (Inl e) \<Rightarrow> Some (Inl e)
           | Some (Inr rs) \<Rightarrow> Some (Inr (r # rs))))"

definition decode_sequences ::
  "euclidean_fn \<Rightarrow> divide_fn \<Rightarrow> phone_arrays_table \<Rightarrow> lookup_table \<Rightarrow> seq_array \<Rightarrow>
   (tensor \<Rightarrow> 's) \<Rightarrow> (tensor \<Rightarrow> 's \<Rightarrow> tensor \<times> 's) \<Rightarrow> vec \<Rightarrow> bool \<Rightarrow>
   (py_error + decoded) option" where
  "decode_sequences euclidean np_divide phone_arrays lookup seq encoder decoder omega renormalize =
     (case seq of
        Seq3 batch \<Rightarrow>
          (case decode_each euclidean np_divide phone_arrays lookup encoder decoder omega
                  renormalize batch of
             None \<Rightarrow> None
           | Some (Inl e) \<Rightarrow> Some (Inl e)
           | Some (Inr rs) \<Rightarrow> Some (Inr (zip_star rs)))
      | Seq2 s \<Rightarrow>
          (case decode_sequence euclidean np_divide phone_arrays lookup [s] encoder decoder omega
                  renormalize of
             None \<Rightarrow> None
           | Some (Inl e) \<Rightarrow> Some (Inl e)
           | Some (Inr (fts, decoded_verb)) \<Rightarrow> Some (Inr (Single fts decoded_verb))))"

section \<open>Preprocessing\<close>

text \<open>
  The corpus is a data frame whose column 0 is the infinitive (\<^verbatim>\<open>v_inf\<close>), column 1 the
  conjugated form and whose column \<^verbatim>\<open>class\<close> is the verb class. A loop that applies a
  function to every element, like \<^verbatim>\<open>Series.apply\<close>, stops at the first exception.
\<close>

record corpus_row =
  v_inf :: string
  target :: string
  verb_class :: string

fun for_each :: "('a \<Rightarrow> py_error + 'b) \<Rightarrow> 'a list \<Rightarrow> py_error + 'b list" where
  "for_each f [] = Inr []"
| "for_each f (x # xs) =
     (case f x of
        Inl e \<Rightarrow> Inl e
      | Inr y \<Rightarrow> (case for_each f xs of Inl e \<Rightarrow> Inl e | Inr ys \<Rightarrow> Inr (y # ys)))"

definition np_zeros :: "nat \<Rightarrow> vec" where
  "np_zeros n = replicate n 0"

text \<open>
  The function applied to every coded output, \<^verbatim>\<open>lambda x: np.vstack((x[1:], np.zeros(21)))\<close>.
  \<^verbatim>\<open>vstack\<close> raises \<^verbatim>\<open>ValueError\<close> unless the rows of \<^verbatim>\<open>x\<close> have 21 entries; the coding of
  an empty verb is an array of shape (0,), for which it raises as well.
\<close>

definition shift_target :: "matrix \<Rightarrow> py_error + matrix" where
  "shift_target x =
     (if x = [] \<or> (\<exists>r\<in>set x. length r \<noteq> 21) then Inl ValueError
      else Inr (drop 1 x @ [np_zeros 21]))"

text \<open>
  Keras' \<^verbatim>\<open>pad_sequences(sequences, value=..., padding=...)\<close> with its default
  \<^verbatim>\<open>maxlen=None\<close>: every sequence is filled with \<^verbatim>\<open>value\<close> up to the length of the
  longest one, before the sequence (\<^verbatim>\<open>'pre'\<close>, the default) or after it (\<^verbatim>\<open>'post'\<close>).
  \<^verbatim>\<open>np.max\<close> of no lengths raises \<^verbatim>\<open>ValueError\<close>, and so does filling an array whose
  samples are all empty with a vector.
\<close>

datatype padding = Pre | Post

definition pad_sequences :: "matrix list \<Rightarrow> vec \<Rightarrow> padding \<Rightarrow> py_error + matrix list" where
  "pad_sequences sequences value padding =
     (if sequences = [] then Inl ValueError
      else if \<forall>s\<in>set sequences. s = [] then Inl ValueError
      else
        let maxlen = Max (set (map length sequences)) in
        Inr (map (\<lambda>s. case padding of
                         Pre \<Rightarrow> replicate (maxlen - length s) value @ s
                       | Post \<Rightarrow> s @ replicate (maxlen - length s) value)
               sequences))"

text \<open>
  \<^verbatim>\<open>mean(axis=0)\<close> of an array with two and with three dimensions. The arrays of
  \<^verbatim>\<open>preprocessing\<close> that reach it have at least one entry along every axis.
\<close>

definition mean_axis0 :: "matrix \<Rightarrow> vec" where
  "mean_axis0 m =
     (case m of
        [] \<Rightarrow> []
      | r # _ \<Rightarrow> map (\<lambda>j. (\<Sum>row\<leftarrow>m. row ! j) / real (length m)) [0..<length r])"

definition mean_axis0_3d :: "tensor \<Rightarrow> matrix" where
  "mean_axis0_3d t =
     (case t of
        [] \<Rightarrow> []
      | s # _ \<Rightarrow> map (\<lambda>i. mean_axis0 (map (\<lambda>sample. sample ! i) t)) [0..<length s])"

definition preprocessing ::
  "phones_table \<Rightarrow> corpus_row list \<Rightarrow>
   py_error + (matrix list \<times> matrix list \<times> tensor \<times> tensor \<times> tensor \<times> vec)" where
  "preprocessing phones corpus =
     (case for_each (code_verb phones) (map v_inf corpus) of
        Inl e \<Rightarrow> Inl e
      | Inr coded_in \<Rightarrow>
     (case for_each (code_verb phones) (map target corpus) of
        Inl e \<Rightarrow> Inl e
      | Inr coded_out \<Rightarrow>
     (case for_each shift_target coded_out of
        Inl e \<Rightarrow> Inl e
      | Inr coded_out_target \<Rightarrow>
     (case pad_sequences coded_in (np_zeros 21) Pre of
        Inl e \<Rightarrow> Inl e
      | Inr padded_in \<Rightarrow>
     (case pad_sequences coded_out (np_zeros 21) Post of
        Inl e \<Rightarrow> Inl e
      | Inr padded_out \<Rightarrow>
     (case pad_sequences coded_out_target (np_zeros 21) Post of
        Inl e \<Rightarrow> Inl e
      | Inr padded_out_target \<Rightarrow>
          Inr (coded_in, coded_out, padded_in, padded_out, padded_out_target,
               map (\<lambda>x. 2 * x + 0.001) (mean_axis0 (mean_axis0_3d padded_out)))))))))"

section \<open>Cross-validation\<close>

text \<open>
  \<^verbatim>\<open>StratifiedKFold(n).split\<close> (scikit-learn) and the training of the network (Keras, in
  \<^verbatim>\<open>train\<close>) are parameters: \<open>split\<close> yields the pairs of training and test positions or
  raises, \<open>train\<close> yields the trained models, and \<open>decoder\<close> is what \<^verbatim>\<open>train\<close> returns as
  \<^verbatim>\<open>decoder_from_df\<close>, applied to those models. \<^verbatim>\<open>iloc\<close> selects rows by position.
\<close>

definition iloc :: "'a list \<Rightarrow> nat list \<Rightarrow> py_error + 'a list" where
  "iloc df positions =
     (if \<forall>i\<in>set positions. i < length df then Inr (map (\<lambda>i. df ! i) positions)
      else Inl IndexError)"

fun kfold_loop ::
  "(corpus_row list \<Rightarrow> nat \<Rightarrow> py_error + 'm) \<Rightarrow>
   ('m \<Rightarrow> corpus_row list \<Rightarrow> bool \<Rightarrow> py_error + 'r list) \<Rightarrow>
   corpus_row list \<Rightarrow> bool \<Rightarrow> (nat list \<times> nat list) list \<Rightarrow> 'r list \<Rightarrow> py_error + 'r list" where
  "kfold_loop train decoder corpus renorm [] all_decodings = Inr all_decodings"
| "kfold_loop train decoder corpus renorm ((i_train, i_test) # folds) all_decodings =
     (case iloc corpus i_train of
        Inl e \<Rightarrow> Inl e
      | Inr corpus_train \<Rightarrow>
     (case iloc corpus i_test of
        Inl e \<Rightarrow> Inl e
      | Inr corpus_test \<Rightarrow>
     (case train corpus_train 300 of
        Inl e \<Rightarrow> Inl e
      | Inr model \<Rightarrow>
     (case decoder model corpus_test renorm of
        Inl e \<Rightarrow> Inl e
      | Inr decoded \<Rightarrow>
          kfold_loop train decoder corpus renorm folds (all_decodings @ decoded)))))"

definition kfold ::
  "(nat \<Rightarrow> corpus_row list \<Rightarrow> string list \<Rightarrow> py_error + (nat list \<times> nat list) list) \<Rightarrow>
   (corpus_row list \<Rightarrow> nat \<Rightarrow> py_error + 'm) \<Rightarrow>
   ('m \<Rightarrow> corpus_row list \<Rightarrow> bool \<Rightarrow> py_error + 'r list) \<Rightarrow>
   corpus_row list \<Rightarrow> nat \<Rightarrow> bool \<Rightarrow> py_error + 'r list" where
  "kfold split train decoder corpus n renorm =
     (case split n corpus (map verb_class corpus) of
        Inl e \<Rightarrow> Inl e
      | Inr folds \<Rightarrow> kfold_loop train decoder corpus renorm folds [])"

section \<open>Loading the data set\<close>

text \<open>
  \<^verbatim>\<open>load_data\<close> of \<^verbatim>\<open>Project/utility.py\<close>. The file system maps a path to the rows that
  \<^verbatim>\<open>csv.reader\<close> yields. The module \<^verbatim>\<open>coding_function\<close> is not part of the sources: its
  functions \<^verbatim>\<open>dataTest\<close> (which may print and may raise) and \<^verbatim>\<open>coding\<close> are parameters.
  What the function prints is part of its result, one entry per call of \<^verbatim>\<open>print\<close>; the
  arrays \<^verbatim>\<open>X\<close> and \<^verbatim>\<open>Y\<close> are the lists of coded forms.
\<close>

datatype printed = Text string | Number nat

fun read_rows ::
  "string list list \<Rightarrow> string list \<Rightarrow> string list \<Rightarrow> py_error + string list \<times> string list" where
  "read_rows [] phoneticinf phoneticI = Inr (phoneticinf, phoneticI)"
| "read_rows (row # readcsv) phoneticinf phoneticI =
     (if length row < 4 then Inl IndexError
      else read_rows readcsv (phoneticinf @ [row ! 1]) (phoneticI @ [row ! 3]))"

definition load_data ::
  "(string \<rightharpoonup> string list list) \<Rightarrow> (string list \<Rightarrow> string list \<Rightarrow> py_error + printed list list) \<Rightarrow>
   (string \<Rightarrow> py_error + 'v) \<Rightarrow> string \<Rightarrow> bool \<Rightarrow>
   py_error + printed list list \<times> ('v list \<times> 'v list)" where
  "load_data files dataTest coding path verbose =
     (case files path of
        None \<Rightarrow> Inl OSError
      | Some readcsv \<Rightarrow>
     (case read_rows readcsv [] [] of
        Inl e \<Rightarrow> Inl e
      | Inr (phoneticinf, phoneticI) \<Rightarrow>
     (case dataTest phoneticinf phoneticI of
        Inl e \<Rightarrow> Inl e
      | Inr out \<Rightarrow>
     (case for_each coding phoneticinf of
        Inl e \<Rightarrow> Inl e
      | Inr vec_inf \<Rightarrow>
     (case for_each coding phoneticI of
        Inl e \<Rightarrow> Inl e
      | Inr vec_I \<Rightarrow>
          if verbose = False then Inr (out, (vec_inf, vec_I))
          else Inr (out @
                 [[Text ''unique verbs:'', Number (card (set phoneticinf)), Text [CHR 0x0A]],
                  [Text ''lenght of data set:'', Number (length vec_inf)]],
                 (vec_inf, vec_I)))))))"

section \<open>Properties of the feature coding\<close>

lemma length_features: "length features = 21"
  by (simp add: features_def)

lemma code_loop_Some:
  "phones phone = Some fs \<Longrightarrow>
   code_loop phones phone fts array =
     Inr (array @ map (\<lambda>item. if item \<in> set fs then 1 else 0) fts)"
  by (induction fts arbitrary: array) simp_all

lemma code_Some:
  "phones phone = Some fs \<Longrightarrow>
   code phones phone = Inr (map (\<lambda>item. if item \<in> set fs then 1 else 0) features)"
  by (simp add: code_def code_loop_Some)

lemma code_None: "phones phone = None \<Longrightarrow> code phones phone = Inl KeyError"
  by (simp add: code_def features_def)

lemma length_code: "code phones phone = Inr v \<Longrightarrow> length v = 21"
  by (cases "phones phone") (auto simp: code_None code_Some length_features)

text \<open>
  C2. For a phone that is a key of the phones table, \<open>code\<close> returns a vector of exactly 21
  entries, each 0 or 1, whose i-th entry is 1 exactly when the i-th feature of \<open>features\<close>
  belongs to the table's entry for the phone.
\<close>

theorem code_feature_vector:
  assumes "phones phone = Some fs"
  shows "\<exists>v. code phones phone = Inr v \<and> length v = 21 \<and>
           (\<forall>i<21. (v ! i = 0 \<or> v ! i = 1) \<and> (v ! i = 1 \<longleftrightarrow> features ! i \<in> set fs))"
  using assms by (simp add: code_Some length_features)

theorem code_feature_vector_witness:
  "[''p'' \<mapsto> [''oclusiva'', ''bilabial'']] ''p'' = Some [''oclusiva'', ''bilabial''] \<and>
   (\<exists>v. code [''p'' \<mapsto> [''oclusiva'', ''bilabial'']] ''p'' = Inr v \<and> length v = 21 \<and>
      (\<forall>i<21. (v ! i = 0 \<or> v ! i = 1) \<and>
         (v ! i = 1 \<longleftrightarrow> features ! i \<in> set [''oclusiva'', ''bilabial''])))"
  using code_feature_vector [of "[''p'' \<mapsto> [''oclusiva'', ''bilabial'']]" "''p''"
      "[''oclusiva'', ''bilabial'']"]
  by simp

lemma code_verb_loop_ok:
  "\<forall>c\<in>set verb. [c] \<in> dom phones \<Longrightarrow>
   \<exists>m. code_verb_loop phones verb coded = Inr (coded @ m) \<and> length m = length verb \<and>
       (\<forall>i<length verb. code phones [verb ! i] = Inr (m ! i))"
proof (induction verb arbitrary: coded)
  case Nil
  then show ?case by simp
next
  case (Cons c verb)
  from Cons.prems obtain fs where fs: "phones [c] = Some fs" by auto
  define a where "a = map (\<lambda>item. if item \<in> set fs then (1::real) else 0) features"
  have ca: "code phones [c] = Inr a" using fs by (simp add: code_Some a_def)
  from Cons.prems have "\<forall>c\<in>set verb. [c] \<in> dom phones" by simp
  from Cons.IH [OF this, of "coded @ [a]"] obtain m where
    m: "code_verb_loop phones verb (coded @ [a]) = Inr ((coded @ [a]) @ m)"
       "length m = length verb"
       "\<forall>i<length verb. code phones [verb ! i] = Inr (m ! i)"
    by blast
  have "\<forall>i<length (c # verb). code phones [(c # verb) ! i] = Inr ((a # m) ! i)"
    using m(3) ca by (simp add: nth_Cons')
  with m(1,2) ca show ?case
    by (intro exI [of _ "a # m"]) simp
qed

text \<open>
  C4. For a verb whose symbols are all keys of the phones table, \<open>code_verb\<close> returns a
  matrix with one row per symbol, in order, the i-th row being \<open>code\<close> of the i-th symbol.
\<close>

theorem code_verb_rows:
  assumes "\<forall>c\<in>set verb. [c] \<in> dom phones"
  shows "\<exists>m. code_verb phones verb = Inr m \<and> length m = length verb \<and>
           (\<forall>i<length verb. code phones [verb ! i] = Inr (m ! i))"
  using code_verb_loop_ok [OF assms, of "[]"] by (simp add: code_verb_def)

theorem code_verb_rows_witness:
  "\<exists>m. code_verb [''p'' \<mapsto> [''oclusiva''], ''a'' \<mapsto> [''aberta'']] ''pa'' = Inr m \<and>
      length m = length ''pa'' \<and>
      (\<forall>i<length ''pa''.
         code [''p'' \<mapsto> [''oclusiva''], ''a'' \<mapsto> [''aberta'']] [''pa'' ! i] = Inr (m ! i))"
proof -
  have h: "\<forall>c\<in>set ''pa''. [c] \<in> dom [''p'' \<mapsto> [''oclusiva''], ''a'' \<mapsto> [''aberta'']]"
    by simp
  show ?thesis by (rule code_verb_rows [OF h])
qed

section \<open>Properties of the nearest-phone search\<close>










section \<open>Properties of the decoding loop\<close>

lemma sample_phone_example_a:
  "sample_phone euclidean_exact np_divide_exact [(''#'', [0]), (''a'', [1])] [1] False [[[1]]]
   = Inr ''a''"
  by (simp add: sample_phone_def last_step_def find_closest_array_def np_subtract_def)

lemma decode_sequence_example_limit:
  "decode_sequence euclidean_exact np_divide_exact [(''#'', [0]), (''a'', [1])]
     [''#'' \<mapsto> [0], ''a'' \<mapsto> [1]] [[[0]]] (\<lambda>_. ()) (\<lambda>_ s. ([[[1]]], s)) [1] False
   = Some (Inr (replicate 14 [[[1]]], ''aaaaaaaaaaaaa''))"
  by (simp add: decode_sequence_def decode_loop.simps sample_phone_example_a numeral_eq_Suc)

lemma sample_phone_example_stop:
  "sample_phone euclidean_exact np_divide_exact [(''#'', [0]), (''a'', [1])] [2] True [[[0]]]
   = Inr ''#''"
  by (simp add: sample_phone_def last_step_def find_closest_array_def np_subtract_def
      np_divide_exact_def)

lemma decode_sequence_example_stop:
  "decode_sequence euclidean_exact np_divide_exact [(''#'', [0]), (''a'', [1])]
     [''#'' \<mapsto> [0], ''a'' \<mapsto> [1]] [[[0]]] (\<lambda>_. ()) (\<lambda>_ s. ([[[0]]], s)) [2] True
   = Some (Inr ([[[[0]]]], ''''))"
  by (simp add: decode_sequence_def decode_loop.simps sample_phone_example_stop)

lemma decode_loop_exit:
  assumes keys: "\<forall>k\<in>dom lookup. length k = 1"
  shows "length decoded_verb \<le> 13 \<Longrightarrow> length fts = length decoded_verb \<Longrightarrow>
    CHR ''#'' \<notin> set decoded_verb \<Longrightarrow>
    \<exists>r. decode_loop euclidean np_divide pa lookup decoder omega renormalize
           target_seq states_value decoded_verb fts = Some r \<and>
      (\<forall>fts' v. r = Inr (fts', v) \<longrightarrow>
         length fts' = length v \<and> length v \<le> 14 \<and>
         (\<exists>prefix phone. v = prefix @ phone \<and> phone \<in> dom lookup \<and>
            CHR ''#'' \<notin> set prefix \<and> (phone \<noteq> ''#'' \<longrightarrow> length prefix = 13))) \<and>
      ((\<forall>t s. \<exists>phone. sample_phone euclidean np_divide pa omega renormalize (fst (decoder t s))
                  = Inr phone \<and> phone \<in> dom lookup)
       \<longrightarrow> (\<exists>fts' v. r = Inr (fts', v)))"
proof (induction "13 - length decoded_verb" arbitrary: target_seq states_value decoded_verb fts
    rule: less_induct)
  case less
  let ?total = "\<forall>t s. \<exists>phone. sample_phone euclidean np_divide pa omega renormalize
      (fst (decoder t s)) = Inr phone \<and> phone \<in> dom lookup"
  obtain output_phones hc where dec: "decoder target_seq states_value = (output_phones, hc)"
    by (cases "decoder target_seq states_value")
  show ?case
  proof (cases "sample_phone euclidean np_divide pa omega renormalize output_phones")
    case (Inl e)
    then have "\<not> ?total" using dec by (metis fst_conv sum.distinct(1))
    moreover have "decode_loop euclidean np_divide pa lookup decoder omega renormalize
        target_seq states_value decoded_verb fts = Some (Inl e)"
      using dec Inl by (subst decode_loop.simps) simp
    ultimately show ?thesis by simp
  next
    case (Inr sampled_phone)
    show ?thesis
    proof (cases "lookup sampled_phone")
      case None
      then have "\<not> ?total" using dec Inr by (metis domIff fst_conv sum.inject(2))
      moreover have "decode_loop euclidean np_divide pa lookup decoder omega renormalize
          target_seq states_value decoded_verb fts = Some (Inl KeyError)"
        using dec Inr None by (subst decode_loop.simps) simp
      ultimately show ?thesis by simp
    next
      case (Some sampled_phone_vector)
      then have indom: "sampled_phone \<in> dom lookup" by blast
      then have len1: "length sampled_phone = 1" using keys by blast
      show ?thesis
      proof (cases "sampled_phone = ''#'' \<or> length (decoded_verb @ sampled_phone) > 13")
        case True
        then have run: "decode_loop euclidean np_divide pa lookup decoder omega renormalize
            target_seq states_value decoded_verb fts
            = Some (Inr (fts @ [output_phones], decoded_verb @ sampled_phone))"
          using dec Inr Some by (subst decode_loop.simps) simp
        have "sampled_phone \<noteq> ''#'' \<longrightarrow> length decoded_verb = 13"
          using True len1 less.prems(1) by auto
        with indom less.prems(3) have "\<exists>prefix phone.
            decoded_verb @ sampled_phone = prefix @ phone \<and> phone \<in> dom lookup \<and>
            CHR ''#'' \<notin> set prefix \<and> (phone \<noteq> ''#'' \<longrightarrow> length prefix = 13)"
          by blast
        with run len1 less.prems show ?thesis by simp
      next
        case False
        then have run: "decode_loop euclidean np_divide pa lookup decoder omega renormalize
            target_seq states_value decoded_verb fts =
          decode_loop euclidean np_divide pa lookup decoder omega renormalize
            [[sampled_phone_vector]] hc (decoded_verb @ sampled_phone) (fts @ [output_phones])"
          using dec Inr Some by (subst decode_loop.simps) simp
        obtain c where c: "sampled_phone = [c]" using len1 by (cases sampled_phone) auto
        with False have "c \<noteq> CHR ''#''" by simp
        have "13 - length (decoded_verb @ sampled_phone) < 13 - length decoded_verb"
          using False len1 by (simp del: One_nat_def) linarith
        moreover have "length (decoded_verb @ sampled_phone) \<le> 13" using False by simp
        moreover have "length (fts @ [output_phones]) = length (decoded_verb @ sampled_phone)"
          using len1 less.prems(2) by simp
        moreover have "CHR ''#'' \<notin> set (decoded_verb @ sampled_phone)"
          using less.prems(3) c \<open>c \<noteq> CHR ''#''\<close> by simp
        ultimately show ?thesis unfolding run by (rule less.hyps)
      qed
    qed
  qed
qed

text \<open>
  C3. The sampling loop of \<open>decode_sequence\<close> terminates for every input sequence, encoder
  and decoder, provided the keys of the \<^verbatim>\<open>lookup\<close> table are single symbols: the run
  returns, with a result or with a Python exception, and with a result whenever the start
  symbol is in \<^verbatim>\<open>lookup\<close> and every sampled phone is. Every iteration adds one entry to
  \<^verbatim>\<open>fts\<close> and one symbol to the decoded string, and the loop exits as soon as the sampled
  phone is the stop symbol or the string has more than 13 symbols: a returned verb has no
  stop symbol, it is the loop's string without the phone sampled last, and that phone is the
  stop symbol unless the verb has 13 symbols. So \<^verbatim>\<open>fts\<close> counts at most 14 iterations and
  the verb has at most 13 symbols.
\<close>

theorem decode_sequence_terminates:
  assumes "\<forall>k\<in>dom lookup. length k = 1"
  shows "\<exists>r. decode_sequence euclidean np_divide pa lookup input_seq encoder decoder omega
            renormalize = Some r \<and>
    (\<forall>fts verb. r = Inr (fts, verb) \<longrightarrow>
       length fts = Suc (length verb) \<and> length fts \<le> 14 \<and> length verb \<le> 13 \<and>
       CHR ''#'' \<notin> set verb \<and>
       (\<exists>start phone. lookup ''#'' = Some start \<and> phone \<in> dom lookup \<and>
          decode_loop euclidean np_divide pa lookup decoder omega renormalize
            [[start]] (encoder input_seq) '''' [] = Some (Inr (fts, verb @ phone)) \<and>
          (phone = ''#'' \<or> length verb = 13))) \<and>
    (''#'' \<in> dom lookup \<and>
     (\<forall>t s. \<exists>phone. sample_phone euclidean np_divide pa omega renormalize (fst (decoder t s))
                = Inr phone \<and> phone \<in> dom lookup)
     \<longrightarrow> (\<exists>fts verb. r = Inr (fts, verb)))"
proof (cases "lookup ''#''")
  case None
  then show ?thesis by (auto simp: decode_sequence_def)
next
  case (Some start)
  let ?total = "\<forall>t s. \<exists>phone. sample_phone euclidean np_divide pa omega renormalize
      (fst (decoder t s)) = Inr phone \<and> phone \<in> dom lookup"
  let ?loop = "decode_loop euclidean np_divide pa lookup decoder omega renormalize [[start]]
        (encoder input_seq) '''' []"
  have "\<exists>r. ?loop = Some r \<and>
      (\<forall>fts' v. r = Inr (fts', v) \<longrightarrow>
         length fts' = length v \<and> length v \<le> 14 \<and>
         (\<exists>prefix phone. v = prefix @ phone \<and> phone \<in> dom lookup \<and>
            CHR ''#'' \<notin> set prefix \<and> (phone \<noteq> ''#'' \<longrightarrow> length prefix = 13))) \<and>
      (?total \<longrightarrow> (\<exists>fts' v. r = Inr (fts', v)))"
    by (rule decode_loop_exit [OF assms]) simp_all
  then obtain r where r: "?loop = Some r"
    and sp: "\<forall>fts' v. r = Inr (fts', v) \<longrightarrow>
         length fts' = length v \<and> length v \<le> 14 \<and>
         (\<exists>prefix phone. v = prefix @ phone \<and> phone \<in> dom lookup \<and>
            CHR ''#'' \<notin> set prefix \<and> (phone \<noteq> ''#'' \<longrightarrow> length prefix = 13))"
    and tot: "?total \<longrightarrow> (\<exists>fts' v. r = Inr (fts', v))"
    by blast
  show ?thesis
  proof (cases r)
    case (Inl e)
    with tot have "\<not> ?total" by blast
    with r Some Inl show ?thesis by (simp add: decode_sequence_def)
  next
    case (Inr p)
    obtain fts' v where p: "p = (fts', v)" by (cases p)
    with sp Inr obtain prefix phone where
      v: "length fts' = length v" "length v \<le> 14" "v = prefix @ phone" "phone \<in> dom lookup"
         "CHR ''#'' \<notin> set prefix" "phone \<noteq> ''#'' \<longrightarrow> length prefix = 13"
      by blast
    then have "length phone = 1" using assms by blast
    then obtain c where c: "phone = [c]" by (cases phone) auto
    with v(3) have bl: "butlast v = prefix" by simp
    have run: "decode_sequence euclidean np_divide pa lookup input_seq encoder decoder omega
        renormalize = Some (Inr (fts', prefix))"
      using r Some Inr p bl by (simp add: decode_sequence_def)
    have "length fts' = Suc (length prefix)" "length fts' \<le> 14" "length prefix \<le> 13"
      using v(1,2,3) c by simp_all
    moreover have "?loop = Some (Inr (fts', prefix @ phone))" using r Inr p v(3) by simp
    moreover have "phone = ''#'' \<or> length prefix = 13" using v(6) by blast
    ultimately show ?thesis using run Some v(4,5) by auto
  qed
qed

theorem decode_sequence_terminates_witness:
  "decode_sequence euclidean_exact np_divide_exact [(''#'', [0]), (''a'', [1])]
     [''#'' \<mapsto> [0], ''a'' \<mapsto> [1]] [[[0]]] (\<lambda>_. ()) (\<lambda>_ s. ([[[0]]], s)) [2] True
   = Some (Inr ([[[[0]]]], '''')) \<and>
   decode_sequence euclidean_exact np_divide_exact [(''#'', [0]), (''a'', [1])]
     [''#'' \<mapsto> [0], ''a'' \<mapsto> [1]] [[[0]]] (\<lambda>_. ()) (\<lambda>_ s. ([[[1]]], s)) [1] False
   = Some (Inr (replicate 14 [[[1]]], ''aaaaaaaaaaaaa'')) \<and>
   length (replicate 14 [[[1::real]]]) = Suc (length ''aaaaaaaaaaaaa'') \<and>
   length (replicate 14 [[[1::real]]]) \<le> 14 \<and> length ''aaaaaaaaaaaaa'' \<le> 13 \<and>
   CHR ''#'' \<notin> set ''aaaaaaaaaaaaa'' \<and>
   (\<exists>start phone. [''#'' \<mapsto> [0::real], ''a'' \<mapsto> [1]] ''#'' = Some start \<and>
      phone \<in> dom [''#'' \<mapsto> [0::real], ''a'' \<mapsto> [1]] \<and>
      decode_loop euclidean_exact np_divide_exact [(''#'', [0]), (''a'', [1])]
        [''#'' \<mapsto> [0], ''a'' \<mapsto> [1]] (\<lambda>_ s. ([[[1]]], s)) [1] False [[start]] () '''' []
        = Some (Inr (replicate 14 [[[1]]], ''aaaaaaaaaaaaa'' @ phone)) \<and>
      (phone = ''#'' \<or> length ''aaaaaaaaaaaaa'' = 13))"
proof -
  let ?P = "\<lambda>fts verb. length fts = Suc (length verb) \<and> length fts \<le> 14 \<and> length verb \<le> 13 \<and>
       CHR ''#'' \<notin> set verb \<and>
       (\<exists>start phone. [''#'' \<mapsto> [0::real], ''a'' \<mapsto> [1]] ''#'' = Some start \<and>
          phone \<in> dom [''#'' \<mapsto> [0::real], ''a'' \<mapsto> [1]] \<and>
          decode_loop euclidean_exact np_divide_exact [(''#'', [0]), (''a'', [1])]
            [''#'' \<mapsto> [0], ''a'' \<mapsto> [1]] (\<lambda>_ s. ([[[1]]], s)) [1] False [[start]] () '''' []
            = Some (Inr (fts, verb @ phone)) \<and>
          (phone = ''#'' \<or> length verb = 13))"
  have h: "\<forall>k\<in>dom [''#'' \<mapsto> [0::real], ''a'' \<mapsto> [1]]. length k = 1" by simp
  note run = decode_sequence_example_limit
  from decode_sequence_terminates [OF h, where euclidean = euclidean_exact
      and np_divide = np_divide_exact and pa = "[(''#'', [0]), (''a'', [1])]"
      and input_seq = "[[[0]]]" and encoder = "\<lambda>_. ()" and decoder = "\<lambda>_ s. ([[[1]]], s)"
      and omega = "[1]" and renormalize = False]
  obtain r where r: "decode_sequence euclidean_exact np_divide_exact [(''#'', [0]), (''a'', [1])]
     [''#'' \<mapsto> [0], ''a'' \<mapsto> [1]] [[[0]]] (\<lambda>_. ()) (\<lambda>_ s. ([[[1]]], s)) [1] False = Some r"
    and sp: "\<forall>fts verb. r = Inr (fts, verb) \<longrightarrow> ?P fts verb"
    by blast
  from r run have "r = Inr (replicate 14 [[[1]]], ''aaaaaaaaaaaaa'')" by simp
  with sp have "?P (replicate 14 [[[1]]]) ''aaaaaaaaaaaaa''" by blast
  with run decode_sequence_example_stop show ?thesis by blast
qed

text \<open>
  C10. Whenever \<open>decode_sequence\<close> returns a verb, the string built by the loop is that verb
  followed by one more phone of the \<^verbatim>\<open>lookup\<close> table, the phone sampled last, which the
  return drops. That phone is the stop symbol, or else the loop stopped on the length
  limit: the verb then has 13 symbols and the phone dropped is an ordinary phone.
\<close>

theorem decode_sequence_drops_last:
  assumes "\<forall>k\<in>dom lookup. length k = 1"
    and "decode_sequence euclidean np_divide pa lookup input_seq encoder decoder omega renormalize
           = Some (Inr (fts, verb))"
  shows "\<exists>start phone. lookup ''#'' = Some start \<and> phone \<in> dom lookup \<and>
     decode_loop euclidean np_divide pa lookup decoder omega renormalize
       [[start]] (encoder input_seq) '''' []
       = Some (Inr (fts, verb @ phone)) \<and>
     (phone \<noteq> ''#'' \<longrightarrow> length verb = 13)"
proof -
  from assms(2) obtain start where start: "lookup ''#'' = Some start"
    by (cases "lookup ''#''") (auto simp: decode_sequence_def)
  let ?loop = "decode_loop euclidean np_divide pa lookup decoder omega renormalize [[start]]
        (encoder input_seq) '''' []"
  have "\<exists>r. ?loop = Some r \<and>
      (\<forall>fts' v. r = Inr (fts', v) \<longrightarrow>
         length fts' = length v \<and> length v \<le> 14 \<and>
         (\<exists>prefix phone. v = prefix @ phone \<and> phone \<in> dom lookup \<and>
            CHR ''#'' \<notin> set prefix \<and> (phone \<noteq> ''#'' \<longrightarrow> length prefix = 13))) \<and>
      ((\<forall>t s. \<exists>phone. sample_phone euclidean np_divide pa omega renormalize (fst (decoder t s))
                  = Inr phone \<and> phone \<in> dom lookup)
       \<longrightarrow> (\<exists>fts' v. r = Inr (fts', v)))"
    by (rule decode_loop_exit [OF assms(1)]) simp_all
  then obtain r where r: "?loop = Some r"
    and sp: "\<forall>fts' v. r = Inr (fts', v) \<longrightarrow>
         length fts' = length v \<and> length v \<le> 14 \<and>
         (\<exists>prefix phone. v = prefix @ phone \<and> phone \<in> dom lookup \<and>
            CHR ''#'' \<notin> set prefix \<and> (phone \<noteq> ''#'' \<longrightarrow> length prefix = 13))"
    by blast
  from assms(2) start r obtain v where rv: "r = Inr (fts, v)" and verb: "verb = butlast v"
    by (cases r) (auto simp: decode_sequence_def split: prod.splits)
  from sp rv obtain prefix phone where
    v: "v = prefix @ phone" "phone \<in> dom lookup" "phone \<noteq> ''#'' \<longrightarrow> length prefix = 13"
    by blast
  then have "length phone = 1" using assms(1) by blast
  then obtain c where c: "phone = [c]" by (cases phone) auto
  with v(1) verb have "verb = prefix" by simp
  with start r rv v show ?thesis by auto
qed

theorem decode_sequence_drops_last_witness:
  "decode_sequence euclidean_exact np_divide_exact [(''#'', [0]), (''a'', [1])]
     [''#'' \<mapsto> [0], ''a'' \<mapsto> [1]] [[[0]]] (\<lambda>_. ()) (\<lambda>_ s. ([[[1]]], s)) [1] False
     = Some (Inr (replicate 14 [[[1]]], ''aaaaaaaaaaaaa'')) \<and>
   (\<exists>start phone. [''#'' \<mapsto> [0::real], ''a'' \<mapsto> [1]] ''#'' = Some start \<and>
      phone \<in> dom [''#'' \<mapsto> [0::real], ''a'' \<mapsto> [1]] \<and>
      decode_loop euclidean_exact np_divide_exact [(''#'', [0]), (''a'', [1])]
        [''#'' \<mapsto> [0], ''a'' \<mapsto> [1]] (\<lambda>_ s. ([[[1]]], s)) [1] False [[start]] () '''' []
        = Some (Inr (replicate 14 [[[1]]], ''aaaaaaaaaaaaa'' @ phone)) \<and>
      (phone \<noteq> ''#'' \<longrightarrow> length ''aaaaaaaaaaaaa'' = 13))"
proof -
  have h1: "\<forall>k\<in>dom [''#'' \<mapsto> [0::real], ''a'' \<mapsto> [1]]. length k = 1" by simp
  note h2 = decode_sequence_example_limit
  show ?thesis
    using h2 decode_sequence_drops_last [OF h1 h2] by blast
qed

section \<open>Decoding a batch\<close>

lemma decode_each_Inr:
  "decode_each euclidean np_divide pa lookup encoder decoder omega renormalize batch
     = Some (Inr rs) \<longleftrightarrow>
   length rs = length batch \<and>
   (\<forall>i<length batch.
      decode_sequence euclidean np_divide pa lookup [batch ! i] encoder decoder omega renormalize
        = Some (Inr (rs ! i)))"
proof (induction batch arbitrary: rs)
  case Nil
  then show ?case by auto
next
  case (Cons s batch)
  show ?case
  proof (cases rs)
    case Nil
    then show ?thesis by (auto split: option.splits sum.splits)
  next
    case (Cons r rs')
    then show ?thesis
      using Cons.IH [of rs']
      by (auto simp: less_Suc_eq_0_disj split: option.splits sum.splits)
  qed
qed

text \<open>
  C9. For a batch (an array with three dimensions), \<open>decode_sequences\<close> returns exactly
  when \<open>decode_sequence\<close> returns for each sequence of the batch on its own, with the same
  encoder, decoder, \<^verbatim>\<open>omega\<close> and \<^verbatim>\<open>renormalize\<close>; its value is \<^verbatim>\<open>zip(*...)\<close> of those
  results in batch order.
\<close>

theorem decode_sequences_batch:
  "decode_sequences euclidean np_divide pa lookup (Seq3 batch) encoder decoder omega renormalize
     = Some (Inr d) \<longleftrightarrow>
   (\<exists>rs. length rs = length batch \<and>
      (\<forall>i<length batch.
         decode_sequence euclidean np_divide pa lookup [batch ! i] encoder decoder omega
           renormalize = Some (Inr (rs ! i))) \<and>
      d = zip_star rs)"
proof
  assume "decode_sequences euclidean np_divide pa lookup (Seq3 batch) encoder decoder omega
    renormalize = Some (Inr d)"
  then obtain rs where
    rs: "decode_each euclidean np_divide pa lookup encoder decoder omega renormalize batch
         = Some (Inr rs)"
    and d: "d = zip_star rs"
    by (auto simp: decode_sequences_def split: option.splits sum.splits)
  from rs have "length rs = length batch \<and>
      (\<forall>i<length batch.
         decode_sequence euclidean np_divide pa lookup [batch ! i] encoder decoder omega
           renormalize = Some (Inr (rs ! i)))"
    by (rule decode_each_Inr [THEN iffD1])
  with d show "\<exists>rs. length rs = length batch \<and>
      (\<forall>i<length batch.
         decode_sequence euclidean np_divide pa lookup [batch ! i] encoder decoder omega
           renormalize = Some (Inr (rs ! i))) \<and>
      d = zip_star rs"
    by blast
next
  assume "\<exists>rs. length rs = length batch \<and>
      (\<forall>i<length batch.
         decode_sequence euclidean np_divide pa lookup [batch ! i] encoder decoder omega
           renormalize = Some (Inr (rs ! i))) \<and>
      d = zip_star rs"
  then obtain rs where rs: "length rs = length batch \<and>
      (\<forall>i<length batch.
         decode_sequence euclidean np_divide pa lookup [batch ! i] encoder decoder omega
           renormalize = Some (Inr (rs ! i)))"
    and d: "d = zip_star rs"
    by blast
  from rs have "decode_each euclidean np_divide pa lookup encoder decoder omega renormalize batch
      = Some (Inr rs)"
    by (rule decode_each_Inr [THEN iffD2])
  with d show "decode_sequences euclidean np_divide pa lookup (Seq3 batch) encoder decoder omega
      renormalize = Some (Inr d)"
    by (simp add: decode_sequences_def)
qed

theorem decode_sequences_batch_witness:
  "(\<exists>rs. length rs = length [[[0::real]], [[0]]] \<and>
      (\<forall>i<length [[[0::real]], [[0]]].
         decode_sequence euclidean_exact np_divide_exact [(''#'', [0]), (''a'', [1])]
           [''#'' \<mapsto> [0], ''a'' \<mapsto> [1]]
           [[[[0]], [[0]]] ! i] (\<lambda>_. ()) (\<lambda>_ s. ([[[0]]], s)) [2] True
           = Some (Inr (rs ! i))) \<and>
      ZipColumns [[[[[0]]]], [[[[0]]]]] ['''', ''''] = zip_star rs) \<and>
   decode_sequences euclidean_exact np_divide_exact [(''#'', [0]), (''a'', [1])]
     [''#'' \<mapsto> [0], ''a'' \<mapsto> [1]]
     (Seq3 [[[0]], [[0]]]) (\<lambda>_. ()) (\<lambda>_ s. ([[[0]]], s)) [2] True
     = Some (Inr (ZipColumns [[[[[0]]]], [[[[0]]]]] ['''', '''']))"
proof -
  have "\<forall>i<length [[[0::real]], [[0]]].
         decode_sequence euclidean_exact np_divide_exact [(''#'', [0]), (''a'', [1])]
           [''#'' \<mapsto> [0], ''a'' \<mapsto> [1]]
           [[[[0]], [[0]]] ! i] (\<lambda>_. ()) (\<lambda>_ s. ([[[0]]], s)) [2] True
           = Some (Inr ([([[[[0]]]], ''''), ([[[[0]]]], '''')] ! i))"
    using decode_sequence_example_stop by (simp add: nth_Cons' less_Suc_eq_0_disj)
  then have h: "\<exists>rs. length rs = length [[[0::real]], [[0]]] \<and>
      (\<forall>i<length [[[0::real]], [[0]]].
         decode_sequence euclidean_exact np_divide_exact [(''#'', [0]), (''a'', [1])]
           [''#'' \<mapsto> [0], ''a'' \<mapsto> [1]]
           [[[[0]], [[0]]] ! i] (\<lambda>_. ()) (\<lambda>_ s. ([[[0]]], s)) [2] True
           = Some (Inr (rs ! i))) \<and>
      ZipColumns [[[[[0]]]], [[[[0]]]]] ['''', ''''] = zip_star rs"
    by (intro exI [of _ "[([[[[0]]]], ''''), ([[[[0]]]], '''')]"]) simp
  show ?thesis
    using h decode_sequences_batch [THEN iffD2, OF h] by blast
qed

section \<open>Properties of preprocessing\<close>

lemma for_each_Inr:
  "for_each f xs = Inr ys \<longleftrightarrow>
   length ys = length xs \<and> (\<forall>i<length xs. f (xs ! i) = Inr (ys ! i))"
proof (induction xs arbitrary: ys)
  case Nil
  then show ?case by auto
next
  case (Cons x xs)
  show ?case
  proof (cases ys)
    case Nil
    then show ?thesis by (auto split: sum.splits)
  next
    case (Cons y ys')
    then show ?thesis
      using Cons.IH [of ys']
      by (auto simp: less_Suc_eq_0_disj split: sum.splits)
  qed
qed

lemma pad_sequences_Inr:
  assumes "pad_sequences sequences v p = Inr padded"
  shows "sequences \<noteq> []"
    and "padded = map (\<lambda>s. case p of
              Pre \<Rightarrow> replicate (Max (set (map length sequences)) - length s) v @ s
            | Post \<Rightarrow> s @ replicate (Max (set (map length sequences)) - length s) v) sequences"
proof -
  show "sequences \<noteq> []"
    using assms by (auto simp: pad_sequences_def split: if_splits)
  show "padded = map (\<lambda>s. case p of
              Pre \<Rightarrow> replicate (Max (set (map length sequences)) - length s) v @ s
            | Post \<Rightarrow> s @ replicate (Max (set (map length sequences)) - length s) v) sequences"
    using assms by (simp add: pad_sequences_def Let_def del: set_map split: if_splits)
qed

lemma length_le_Max:
  "i < length sequences \<Longrightarrow> length (sequences ! i) \<le> Max (set (map length sequences))"
  by (rule Max_ge) auto

lemma shift_target_Inr:
  "shift_target x = Inr t \<Longrightarrow> t = drop 1 x @ [np_zeros 21] \<and> length t = length x \<and> x \<noteq> []"
  by (auto simp: shift_target_def split: if_splits)

lemma preprocessing_Inr:
  assumes "preprocessing phones corpus =
    Inr (coded_in, coded_out, padded_in, padded_out, padded_out_target, omega)"
  shows "\<exists>coded_out_target.
     for_each (code_verb phones) (map v_inf corpus) = Inr coded_in \<and>
     for_each (code_verb phones) (map target corpus) = Inr coded_out \<and>
     for_each shift_target coded_out = Inr coded_out_target \<and>
     pad_sequences coded_in (np_zeros 21) Pre = Inr padded_in \<and>
     pad_sequences coded_out (np_zeros 21) Post = Inr padded_out \<and>
     pad_sequences coded_out_target (np_zeros 21) Post = Inr padded_out_target"
  using assms by (auto simp: preprocessing_def split: sum.splits)

lemma preprocessing_example:
  "\<exists>coded_in coded_out padded_in padded_out padded_out_target omega.
     preprocessing [''p'' \<mapsto> [''oclusiva''], ''a'' \<mapsto> [''aberta'']]
       [\<lparr>v_inf = ''pa'', target = ''a'', verb_class = ''x''\<rparr>,
        \<lparr>v_inf = ''a'', target = ''pa'', verb_class = ''x''\<rparr>]
     = Inr (coded_in, coded_out, padded_in, padded_out, padded_out_target, omega)"
  by (simp add: preprocessing_def code_verb_def code_def features_def shift_target_def
      pad_sequences_def np_zeros_def)

text \<open>
  C5. When \<open>preprocessing\<close> returns, every padded array has one entry per corpus row. The
  coded input of a row is padded at the beginning, its coded output and its output target
  at the end, with all-zero vectors of 21 entries, up to the length of the longest coded
  input, respectively the longest coded output; the remaining rows are the coded rows (for
  the target, the shifted rows) in their order.
\<close>

theorem preprocessing_padding:
  assumes "preprocessing phones corpus =
    Inr (coded_in, coded_out, padded_in, padded_out, padded_out_target, omega)"
  shows "length coded_in = length corpus \<and> length coded_out = length corpus \<and>
     length padded_in = length corpus \<and> length padded_out = length corpus \<and>
     length padded_out_target = length corpus \<and>
     (\<forall>i<length corpus.
        code_verb phones (v_inf (corpus ! i)) = Inr (coded_in ! i) \<and>
        code_verb phones (target (corpus ! i)) = Inr (coded_out ! i) \<and>
        padded_in ! i =
          replicate (Max (set (map length coded_in)) - length (coded_in ! i)) (replicate 21 0)
          @ coded_in ! i \<and>
        padded_out ! i =
          coded_out ! i
          @ replicate (Max (set (map length coded_out)) - length (coded_out ! i)) (replicate 21 0) \<and>
        padded_out_target ! i =
          (drop 1 (coded_out ! i) @ [replicate 21 0])
          @ replicate (Max (set (map length coded_out)) - length (coded_out ! i)) (replicate 21 0) \<and>
        length (padded_in ! i) = Max (set (map length coded_in)) \<and>
        length (padded_out ! i) = Max (set (map length coded_out)) \<and>
        length (padded_out_target ! i) = Max (set (map length coded_out)))"
proof -
  from preprocessing_Inr [OF assms] obtain coded_out_target where
    ci: "for_each (code_verb phones) (map v_inf corpus) = Inr coded_in" and
    co: "for_each (code_verb phones) (map target corpus) = Inr coded_out" and
    ct: "for_each shift_target coded_out = Inr coded_out_target" and
    pi: "pad_sequences coded_in (np_zeros 21) Pre = Inr padded_in" and
    po: "pad_sequences coded_out (np_zeros 21) Post = Inr padded_out" and
    pt: "pad_sequences coded_out_target (np_zeros 21) Post = Inr padded_out_target"
    by blast
  let ?Min = "Max (set (map length coded_in))"
  let ?Mout = "Max (set (map length coded_out))"
  let ?z = "replicate 21 (0::real)"
  from ci have lci: "length coded_in = length corpus"
    and ci_nth: "\<forall>i<length corpus. code_verb phones (v_inf (corpus ! i)) = Inr (coded_in ! i)"
    by (simp_all add: for_each_Inr)
  from co have lco: "length coded_out = length corpus"
    and co_nth: "\<forall>i<length corpus. code_verb phones (target (corpus ! i)) = Inr (coded_out ! i)"
    by (simp_all add: for_each_Inr)
  from ct have lct: "length coded_out_target = length coded_out"
    and ct_nth: "\<forall>i<length coded_out. shift_target (coded_out ! i) = Inr (coded_out_target ! i)"
    by (simp_all add: for_each_Inr)
  have tgt: "coded_out_target ! i = drop 1 (coded_out ! i) @ [?z]"
    and tgt_len: "length (coded_out_target ! i) = length (coded_out ! i)"
    if "i < length corpus" for i
    using that ct_nth lco shift_target_Inr [of "coded_out ! i" "coded_out_target ! i"]
    by (simp_all add: np_zeros_def)
  have "map length coded_out_target = map length coded_out"
    using lct lco tgt_len by (intro nth_equalityI) simp_all
  then have Mt: "Max (set (map length coded_out_target)) = ?Mout" by simp
  have pin: "padded_in = map (\<lambda>s. replicate (?Min - length s) ?z @ s) coded_in"
    using pad_sequences_Inr(2) [OF pi] by (simp add: np_zeros_def)
  have pout: "padded_out = map (\<lambda>s. s @ replicate (?Mout - length s) ?z) coded_out"
    using pad_sequences_Inr(2) [OF po] by (simp add: np_zeros_def)
  have ptgt: "padded_out_target = map (\<lambda>s. s @ replicate (?Mout - length s) ?z) coded_out_target"
    using pad_sequences_Inr(2) [OF pt] Mt by (simp add: np_zeros_def)
  have rows: "code_verb phones (v_inf (corpus ! i)) = Inr (coded_in ! i) \<and>
        code_verb phones (target (corpus ! i)) = Inr (coded_out ! i) \<and>
        padded_in ! i = replicate (?Min - length (coded_in ! i)) ?z @ coded_in ! i \<and>
        padded_out ! i = coded_out ! i @ replicate (?Mout - length (coded_out ! i)) ?z \<and>
        padded_out_target ! i =
          (drop 1 (coded_out ! i) @ [?z]) @ replicate (?Mout - length (coded_out ! i)) ?z \<and>
        length (padded_in ! i) = ?Min \<and>
        length (padded_out ! i) = ?Mout \<and>
        length (padded_out_target ! i) = ?Mout"
    if i: "i < length corpus" for i
  proof -
    have le_in: "length (coded_in ! i) \<le> ?Min" using i lci by (simp add: length_le_Max)
    have le_out: "length (coded_out ! i) \<le> ?Mout" using i lco by (simp add: length_le_Max)
    have p1: "padded_in ! i = replicate (?Min - length (coded_in ! i)) ?z @ coded_in ! i"
      using i lci by (simp add: pin)
    have p2: "padded_out ! i = coded_out ! i @ replicate (?Mout - length (coded_out ! i)) ?z"
      using i lco by (simp add: pout)
    have p3': "padded_out_target ! i =
        coded_out_target ! i @ replicate (?Mout - length (coded_out_target ! i)) ?z"
      using i lct lco by (simp add: ptgt)
    have p3: "padded_out_target ! i =
        (drop 1 (coded_out ! i) @ [?z]) @ replicate (?Mout - length (coded_out ! i)) ?z"
      using p3' tgt [OF i] tgt_len [OF i] by (simp only:)
    have l1: "length (padded_in ! i) = ?Min"
      unfolding p1 using le_in by (simp del: set_map)
    have l2: "length (padded_out ! i) = ?Mout"
      unfolding p2 using le_out by (simp del: set_map)
    have l3: "length (padded_out_target ! i) = ?Mout"
      unfolding p3' using le_out tgt_len [OF i] by (simp del: set_map)
    from i ci_nth co_nth p1 p2 p3 l1 l2 l3 show ?thesis by blast
  qed
  have lpi: "length padded_in = length corpus" using lci by (simp add: pin)
  have lpo: "length padded_out = length corpus" using lco by (simp add: pout)
  have lpt: "length padded_out_target = length corpus" using lct lco by (simp add: ptgt)
  from lci lco lpi lpo lpt rows show ?thesis by blast
qed

theorem preprocessing_padding_witness:
  "\<exists>coded_in coded_out padded_in padded_out padded_out_target omega.
     preprocessing [''p'' \<mapsto> [''oclusiva''], ''a'' \<mapsto> [''aberta'']]
       [\<lparr>v_inf = ''pa'', target = ''a'', verb_class = ''x''\<rparr>,
        \<lparr>v_inf = ''a'', target = ''pa'', verb_class = ''x''\<rparr>]
     = Inr (coded_in, coded_out, padded_in, padded_out, padded_out_target, omega) \<and>
     length padded_in = 2 \<and> length padded_out = 2 \<and> length padded_out_target = 2 \<and>
     padded_in ! 1 =
       replicate (Max (set (map length coded_in)) - length (coded_in ! 1)) (replicate 21 0)
       @ coded_in ! 1 \<and>
     padded_out ! 0 =
       coded_out ! 0
       @ replicate (Max (set (map length coded_out)) - length (coded_out ! 0)) (replicate 21 0) \<and>
     padded_out_target ! 0 =
       (drop 1 (coded_out ! 0) @ [replicate 21 0])
       @ replicate (Max (set (map length coded_out)) - length (coded_out ! 0)) (replicate 21 0) \<and>
     length (padded_in ! 1) = Max (set (map length coded_in)) \<and>
     length (padded_out ! 0) = Max (set (map length coded_out)) \<and>
     length (padded_out_target ! 0) = Max (set (map length coded_out))"
proof -
  let ?phones = "[''p'' \<mapsto> [''oclusiva''], ''a'' \<mapsto> [''aberta'']]"
  let ?corpus = "[\<lparr>v_inf = ''pa'', target = ''a'', verb_class = ''x''\<rparr>,
        \<lparr>v_inf = ''a'', target = ''pa'', verb_class = ''x''\<rparr>]"
  from preprocessing_example obtain coded_in coded_out padded_in padded_out padded_out_target
    omega where
    h: "preprocessing ?phones ?corpus
        = Inr (coded_in, coded_out, padded_in, padded_out, padded_out_target, omega)"
    by blast
  let ?row = "\<lambda>i. code_verb ?phones (v_inf (?corpus ! i)) = Inr (coded_in ! i) \<and>
        code_verb ?phones (target (?corpus ! i)) = Inr (coded_out ! i) \<and>
        padded_in ! i =
          replicate (Max (set (map length coded_in)) - length (coded_in ! i)) (replicate 21 0)
          @ coded_in ! i \<and>
        padded_out ! i =
          coded_out ! i
          @ replicate (Max (set (map length coded_out)) - length (coded_out ! i)) (replicate 21 0) \<and>
        padded_out_target ! i =
          (drop 1 (coded_out ! i) @ [replicate 21 0])
          @ replicate (Max (set (map length coded_out)) - length (coded_out ! i)) (replicate 21 0) \<and>
        length (padded_in ! i) = Max (set (map length coded_in)) \<and>
        length (padded_out ! i) = Max (set (map length coded_out)) \<and>
        length (padded_out_target ! i) = Max (set (map length coded_out))"
  note p = preprocessing_padding [OF h]
  have l: "length ?corpus = 2" "0 < length ?corpus" "1 < length ?corpus" by simp_all
  from p have lens: "length padded_in = length ?corpus" "length padded_out = length ?corpus"
    "length padded_out_target = length ?corpus"
    by blast+
  from p have rows: "\<forall>i<length ?corpus. ?row i" by blast
  from rows l(2) have r0: "?row 0" by blast
  from rows l(3) have r1: "?row 1" by blast
  from lens l(1) have lens2: "length padded_in = 2" "length padded_out = 2"
    "length padded_out_target = 2"
    by simp_all
  from h lens2 r0 r1 show ?thesis
    by (intro exI [of _ coded_in] exI [of _ coded_out] exI [of _ padded_in]
        exI [of _ padded_out] exI [of _ padded_out_target] exI [of _ omega])
       blast
qed

text \<open>
  C6. When \<open>preprocessing\<close> returns, the target built for the coded output of a corpus row
  is that output without its first row, followed by one all-zero row of 21 entries; it has
  as many rows as the output, and these are the leading rows of the padded target.
\<close>

theorem preprocessing_target_shifted:
  assumes "preprocessing phones corpus =
    Inr (coded_in, coded_out, padded_in, padded_out, padded_out_target, omega)"
    and "i < length corpus"
  shows "\<exists>t. shift_target (coded_out ! i) = Inr t \<and>
     t = drop 1 (coded_out ! i) @ [replicate 21 0] \<and>
     length t = length (coded_out ! i) \<and>
     take (length t) (padded_out_target ! i) = t"
proof -
  from preprocessing_Inr [OF assms(1)] obtain coded_out_target where
    co: "for_each (code_verb phones) (map target corpus) = Inr coded_out" and
    ct: "for_each shift_target coded_out = Inr coded_out_target" and
    pt: "pad_sequences coded_out_target (np_zeros 21) Post = Inr padded_out_target"
    by blast
  from co have lco: "length coded_out = length corpus" by (simp add: for_each_Inr)
  from ct have lct: "length coded_out_target = length coded_out"
    and ct_nth: "\<forall>i<length coded_out. shift_target (coded_out ! i) = Inr (coded_out_target ! i)"
    by (simp_all add: for_each_Inr)
  have st: "shift_target (coded_out ! i) = Inr (coded_out_target ! i)"
    using ct_nth lco assms(2) by simp
  from shift_target_Inr [OF st] have t: "coded_out_target ! i = drop 1 (coded_out ! i) @ [replicate 21 0]"
    "length (coded_out_target ! i) = length (coded_out ! i)"
    by (simp_all add: np_zeros_def)
  have "padded_out_target ! i = coded_out_target ! i
      @ replicate (Max (set (map length coded_out_target)) - length (coded_out_target ! i)) (np_zeros 21)"
    using pad_sequences_Inr(2) [OF pt] lct lco assms(2) by simp
  then have "take (length (coded_out_target ! i)) (padded_out_target ! i) = coded_out_target ! i"
    by simp
  with st t show ?thesis by (intro exI [of _ "coded_out_target ! i"]) simp
qed

theorem preprocessing_target_shifted_witness:
  "\<exists>coded_in coded_out padded_in padded_out padded_out_target omega.
     preprocessing [''p'' \<mapsto> [''oclusiva''], ''a'' \<mapsto> [''aberta'']]
       [\<lparr>v_inf = ''pa'', target = ''a'', verb_class = ''x''\<rparr>,
        \<lparr>v_inf = ''a'', target = ''pa'', verb_class = ''x''\<rparr>]
     = Inr (coded_in, coded_out, padded_in, padded_out, padded_out_target, omega) \<and>
     (\<exists>t. shift_target (coded_out ! 1) = Inr t \<and>
        t = drop 1 (coded_out ! 1) @ [replicate 21 0] \<and>
        length t = length (coded_out ! 1) \<and>
        take (length t) (padded_out_target ! 1) = t)"
proof -
  let ?phones = "[''p'' \<mapsto> [''oclusiva''], ''a'' \<mapsto> [''aberta'']]"
  let ?corpus = "[\<lparr>v_inf = ''pa'', target = ''a'', verb_class = ''x''\<rparr>,
        \<lparr>v_inf = ''a'', target = ''pa'', verb_class = ''x''\<rparr>]"
  from preprocessing_example obtain coded_in coded_out padded_in padded_out padded_out_target
    omega where
    h: "preprocessing ?phones ?corpus
        = Inr (coded_in, coded_out, padded_in, padded_out, padded_out_target, omega)"
    by blast
  have l: "1 < length ?corpus" by simp
  from preprocessing_target_shifted [OF h l] h show ?thesis by blast
qed

section \<open>Properties of cross-validation\<close>

lemma iloc_Inr:
  "\<forall>i\<in>set positions. i < length df \<Longrightarrow> iloc df positions = Inr (map ((!) df) positions)"
  by (simp add: iloc_def)

lemma kfold_loop_concat:
  assumes "length ds = length folds"
    and "\<forall>k<length folds. \<forall>i\<in>set (fst (folds ! k)) \<union> set (snd (folds ! k)). i < length corpus"
    and "\<forall>k<length folds. \<exists>m.
           train (map ((!) corpus) (fst (folds ! k))) 300 = Inr m \<and>
           decoder m (map ((!) corpus) (snd (folds ! k))) renorm = Inr (ds ! k)"
  shows "kfold_loop train decoder corpus renorm folds all_decodings
         = Inr (all_decodings @ concat ds)"
  using assms
proof (induction folds arbitrary: ds all_decodings)
  case Nil
  then show ?case by simp
next
  case (Cons fold folds)
  obtain i_train i_test where fold: "fold = (i_train, i_test)" by (cases fold)
  from Cons.prems(1) obtain d ds' where ds: "ds = d # ds'" by (cases ds) auto
  from Cons.prems(2) have "\<forall>i\<in>set i_train \<union> set i_test. i < length corpus"
    using fold by fastforce
  then have tr: "iloc corpus i_train = Inr (map ((!) corpus) i_train)"
    and te: "iloc corpus i_test = Inr (map ((!) corpus) i_test)"
    by (simp_all add: iloc_Inr)
  from Cons.prems(3) obtain m where
    m: "train (map ((!) corpus) i_train) 300 = Inr m"
       "decoder m (map ((!) corpus) i_test) renorm = Inr d"
    using fold ds by fastforce
  have l: "length ds' = length folds" using Cons.prems(1) ds by simp
  have r: "\<forall>k<length folds. \<forall>i\<in>set (fst (folds ! k)) \<union> set (snd (folds ! k)). i < length corpus"
  proof (intro allI impI)
    fix k assume "k < length folds"
    then have "Suc k < length (fold # folds)" by simp
    with Cons.prems(2) have
      "\<forall>i\<in>set (fst ((fold # folds) ! Suc k)) \<union> set (snd ((fold # folds) ! Suc k)). i < length corpus"
      by blast
    then show "\<forall>i\<in>set (fst (folds ! k)) \<union> set (snd (folds ! k)). i < length corpus" by simp
  qed
  have t: "\<forall>k<length folds. \<exists>m.
           train (map ((!) corpus) (fst (folds ! k))) 300 = Inr m \<and>
           decoder m (map ((!) corpus) (snd (folds ! k))) renorm = Inr (ds' ! k)"
  proof (intro allI impI)
    fix k assume "k < length folds"
    then have "Suc k < length (fold # folds)" by simp
    with Cons.prems(3) have "\<exists>m.
           train (map ((!) corpus) (fst ((fold # folds) ! Suc k))) 300 = Inr m \<and>
           decoder m (map ((!) corpus) (snd ((fold # folds) ! Suc k))) renorm = Inr (ds ! Suc k)"
      by blast
    then show "\<exists>m. train (map ((!) corpus) (fst (folds ! k))) 300 = Inr m \<and>
           decoder m (map ((!) corpus) (snd (folds ! k))) renorm = Inr (ds' ! k)"
      using ds by simp
  qed
  from Cons.IH [OF l r t, of "all_decodings @ d"]
  show ?case using fold ds tr te m by simp
qed

lemma distinct_concat_positions:
  assumes "\<forall>k<length xs. distinct (xs ! k)"
    and "\<forall>k<length xs. \<forall>k'<length xs. k \<noteq> k' \<longrightarrow> set (xs ! k) \<inter> set (xs ! k') = {}"
  shows "distinct (concat xs)"
  using assms
proof (induction xs)
  case Nil
  then show ?case by simp
next
  case (Cons x xs)
  have dx: "distinct x" using Cons.prems(1) by fastforce
  have d: "\<forall>k<length xs. distinct (xs ! k)"
  proof (intro allI impI)
    fix k assume "k < length xs"
    then have "Suc k < length (x # xs)" by simp
    with Cons.prems(1) have "distinct ((x # xs) ! Suc k)" by blast
    then show "distinct (xs ! k)" by simp
  qed
  have p: "\<forall>k<length xs. \<forall>k'<length xs. k \<noteq> k' \<longrightarrow> set (xs ! k) \<inter> set (xs ! k') = {}"
  proof (intro allI impI)
    fix k k' assume "k < length xs" "k' < length xs" "k \<noteq> k'"
    then have "Suc k < length (x # xs)" "Suc k' < length (x # xs)" "Suc k \<noteq> Suc k'" by simp_all
    with Cons.prems(2) have "set ((x # xs) ! Suc k) \<inter> set ((x # xs) ! Suc k') = {}" by blast
    then show "set (xs ! k) \<inter> set (xs ! k') = {}" by simp
  qed
  have "set x \<inter> set (concat xs) = {}"
  proof -
    have "set x \<inter> set ys = {}" if "ys \<in> set xs" for ys
    proof -
      from that obtain k where k: "k < length xs" "ys = xs ! k" by (auto simp: in_set_conv_nth)
      then have "0 < length (x # xs)" "Suc k < length (x # xs)" "0 \<noteq> Suc k" by simp_all
      with Cons.prems(2) have "set ((x # xs) ! 0) \<inter> set ((x # xs) ! Suc k) = {}" by blast
      with k show ?thesis by simp
    qed
    then show ?thesis by auto
  qed
  with dx Cons.IH [OF d p] show ?case by simp
qed

lemma test_rows_once:
  assumes once: "\<forall>i<length corpus. \<exists>!k. k < length tests \<and> i \<in> set (tests ! k)"
    and dist: "\<forall>k<length tests. distinct (tests ! k)"
    and range: "\<forall>k<length tests. \<forall>i\<in>set (tests ! k). i < length corpus"
  shows "mset (concat (map (map ((!) corpus)) tests)) = mset corpus"
proof -
  have disj: "\<forall>k<length tests. \<forall>k'<length tests. k \<noteq> k' \<longrightarrow>
      set (tests ! k) \<inter> set (tests ! k') = {}"
  proof (intro allI impI)
    fix k k' assume k: "k < length tests" "k' < length tests" "k \<noteq> k'"
    show "set (tests ! k) \<inter> set (tests ! k') = {}"
    proof (rule ccontr)
      assume "set (tests ! k) \<inter> set (tests ! k') \<noteq> {}"
      then obtain i where i: "i \<in> set (tests ! k)" "i \<in> set (tests ! k')" by blast
      with range k(1) have "i < length corpus" by blast
      with once have "\<exists>!k. k < length tests \<and> i \<in> set (tests ! k)" by blast
      with i k show False by blast
    qed
  qed
  have d: "distinct (concat tests)" by (rule distinct_concat_positions [OF dist disj])
  have s: "set (concat tests) = set [0..<length corpus]"
  proof (intro set_eqI iffI)
    fix i assume "i \<in> set (concat tests)"
    then obtain ys where "ys \<in> set tests" "i \<in> set ys" by auto
    then obtain k where "k < length tests" "i \<in> set (tests ! k)"
      by (metis in_set_conv_nth)
    with range show "i \<in> set [0..<length corpus]" by auto
  next
    fix i assume "i \<in> set [0..<length corpus]"
    then have "i < length corpus" by simp
    with once obtain k where "k < length tests" "i \<in> set (tests ! k)" by blast
    then have "tests ! k \<in> set tests" "i \<in> set (tests ! k)" by simp_all
    then show "i \<in> set (concat tests)" by auto
  qed
  have "distinct [0..<length corpus]" by simp
  with d s have "mset (concat tests) = mset [0..<length corpus]"
    by (simp only: set_eq_iff_mset_eq_distinct)
  then have "mset (map ((!) corpus) (concat tests)) = mset (map ((!) corpus) [0..<length corpus])"
    by (metis mset_map)
  then show ?thesis by (simp add: map_concat map_nth)
qed

text \<open>
  C7. \<open>kfold\<close> asks \<open>split\<close> for \<open>n\<close> folds of the corpus by its class column. Given what
  scikit-learn documents of the split (\<open>n\<close> folds, test positions within the corpus and
  without repetition, every position in the test part of exactly one fold), and given that
  training and decoding return for every fold, \<open>kfold\<close> returns the concatenation, in
  fold order, of the decodings of each fold's test rows by the model trained on that fold's
  training rows, and the test rows of all folds together are the corpus rows, each once.
\<close>

theorem kfold_decodes_every_row_once:
  assumes "split n corpus (map verb_class corpus) = Inr folds"
    and "length folds = n"
    and "\<forall>i<length corpus. \<exists>!k. k < n \<and> i \<in> set (snd (folds ! k))"
    and "\<forall>k<n. distinct (snd (folds ! k))"
    and "\<forall>k<n. \<forall>i\<in>set (fst (folds ! k)) \<union> set (snd (folds ! k)). i < length corpus"
    and "length ds = n"
    and "\<forall>k<n. \<exists>m.
           train (map ((!) corpus) (fst (folds ! k))) 300 = Inr m \<and>
           decoder m (map ((!) corpus) (snd (folds ! k))) renorm = Inr (ds ! k)"
  shows "kfold split train decoder corpus n renorm = Inr (concat ds) \<and>
     mset (concat (map (\<lambda>(i_train, i_test). map ((!) corpus) i_test) folds)) = mset corpus"
proof -
  have "kfold_loop train decoder corpus renorm folds [] = Inr ([] @ concat ds)"
    using assms(2,5,6,7) by (intro kfold_loop_concat) simp_all
  then have run: "kfold split train decoder corpus n renorm = Inr (concat ds)"
    using assms(1) by (simp add: kfold_def)
  have nth_snd: "map snd folds ! k = snd (folds ! k)" if "k < n" for k
    using that assms(2) by simp
  have once: "\<forall>i<length corpus. \<exists>!k. k < length (map snd folds) \<and> i \<in> set (map snd folds ! k)"
  proof (intro allI impI)
    fix i assume "i < length corpus"
    with assms(3) have "\<exists>!k. k < n \<and> i \<in> set (snd (folds ! k))" by blast
    then show "\<exists>!k. k < length (map snd folds) \<and> i \<in> set (map snd folds ! k)"
      using assms(2) by (auto simp: nth_snd)
  qed
  have dist: "\<forall>k<length (map snd folds). distinct (map snd folds ! k)"
    using assms(2,4) by (simp add: nth_snd)
  have range: "\<forall>k<length (map snd folds). \<forall>i\<in>set (map snd folds ! k). i < length corpus"
    using assms(2,5) by (simp add: nth_snd)
  have "mset (concat (map (map ((!) corpus)) (map snd folds))) = mset corpus"
    by (rule test_rows_once [OF once dist range])
  moreover have "map (map ((!) corpus)) (map snd folds)
      = map (\<lambda>(i_train, i_test). map ((!) corpus) i_test) folds"
    by (simp add: case_prod_unfold)
  ultimately have "mset (concat (map (\<lambda>(i_train, i_test). map ((!) corpus) i_test) folds))
      = mset corpus"
    by (simp only:)
  with run show ?thesis by blast
qed

theorem kfold_decodes_every_row_once_witness:
  "kfold (\<lambda>n corpus y. Inr [([1], [0]), ([0], [1])]) (\<lambda>rows epochs. Inr rows)
     (\<lambda>model test renorm. Inr (map v_inf test))
     [\<lparr>v_inf = ''pa'', target = ''a'', verb_class = ''x''\<rparr>,
      \<lparr>v_inf = ''a'', target = ''pa'', verb_class = ''y''\<rparr>] 2 False
   = Inr (concat [[''pa''], [''a'']]) \<and>
   mset (concat (map (\<lambda>(i_train, i_test).
       map ((!) [\<lparr>v_inf = ''pa'', target = ''a'', verb_class = ''x''\<rparr>,
                 \<lparr>v_inf = ''a'', target = ''pa'', verb_class = ''y''\<rparr>]) i_test)
       [([1::nat], [0::nat]), ([0], [1])]))
   = mset [\<lparr>v_inf = ''pa'', target = ''a'', verb_class = ''x''\<rparr>,
           \<lparr>v_inf = ''a'', target = ''pa'', verb_class = ''y''\<rparr>]"
proof -
  let ?corpus = "[\<lparr>v_inf = ''pa'', target = ''a'', verb_class = ''x''\<rparr>,
      \<lparr>v_inf = ''a'', target = ''pa'', verb_class = ''y''\<rparr>]"
  let ?folds = "[([1::nat], [0::nat]), ([0], [1])]"
  let ?split = "\<lambda>(n::nat) (corpus::corpus_row list) (y::string list).
      (Inr ?folds :: py_error + (nat list \<times> nat list) list)"
  let ?train = "\<lambda>(rows::corpus_row list) (epochs::nat). (Inr rows :: py_error + corpus_row list)"
  let ?decoder = "\<lambda>(model::corpus_row list) (test::corpus_row list) (renorm::bool).
      (Inr (map v_inf test) :: py_error + string list)"
  let ?ds = "[[''pa''], [''a'']]"
  have h1: "?split 2 ?corpus (map verb_class ?corpus) = Inr ?folds" by simp
  have h2: "length ?folds = 2" by simp
  have h3: "\<forall>i<length ?corpus. \<exists>!k. k < 2 \<and> i \<in> set (snd (?folds ! k))"
    by (auto simp: less_Suc_eq numeral_2_eq_2 nth_Cons')
  have h4: "\<forall>k<2. distinct (snd (?folds ! k))"
    by (auto simp: less_Suc_eq numeral_2_eq_2)
  have h5: "\<forall>k<2. \<forall>i\<in>set (fst (?folds ! k)) \<union> set (snd (?folds ! k)). i < length ?corpus"
    by (auto simp: less_Suc_eq numeral_2_eq_2)
  have h6: "length ?ds = 2" by simp
  have h7: "\<forall>k<2. \<exists>m.
           ?train (map ((!) ?corpus) (fst (?folds ! k))) 300 = Inr m \<and>
           ?decoder m (map ((!) ?corpus) (snd (?folds ! k))) False = Inr (?ds ! k)"
    by (auto simp: less_Suc_eq numeral_2_eq_2)
  have c: "kfold ?split ?train ?decoder ?corpus 2 False = Inr (concat ?ds) \<and>
     mset (concat (map (\<lambda>(i_train, i_test). map ((!) ?corpus) i_test) ?folds)) = mset ?corpus"
    using h1 h2 h3 h4 h5 h6 h7 by (rule kfold_decodes_every_row_once)
  then show ?thesis .
qed

section \<open>Properties of loading\<close>

text \<open>
  C8. \<open>load_data\<close> returns the same pair of coded arrays, or raises the same exception,
  whether \<^verbatim>\<open>verbose\<close> is true or false; only the printed output differs.
\<close>

theorem load_data_verbose_independent:
  "map_sum id snd (load_data files dataTest coding path True)
   = map_sum id snd (load_data files dataTest coding path False)"
  by (simp add: load_data_def split: option.splits sum.splits prod.splits)

theorem load_data_verbose_independent_witness:
  "map_sum id snd
     (load_data [''verbs.csv'' \<mapsto> [[''0'', ''pa'', ''x'', ''a'']]] (\<lambda>a b. Inr [])
        (\<lambda>s. Inr (length s)) ''verbs.csv'' True)
   = Inr ([2], [1]) \<and>
   map_sum id snd
     (load_data [''verbs.csv'' \<mapsto> [[''0'', ''pa'', ''x'', ''a'']]] (\<lambda>a b. Inr [])
        (\<lambda>s. Inr (length s)) ''verbs.csv'' False)
   = Inr ([2], [1])"
  using load_data_verbose_independent [of "[''verbs.csv'' \<mapsto> [[''0'', ''pa'', ''x'', ''a'']]]"
      "\<lambda>a b. Inr []" "\<lambda>s. Inr (length s)" "''verbs.csv''"]
  by (simp add: load_data_def)

end
